theory Spec2Isabelle
  imports Main
begin

section \<open>Entity types and entity references\<close>

text \<open>
  The constants of \<^verbatim>\<open>ocfl.Type\<close>. The declaration of the type is not among the
  sources; the walk compares its values with \<^verbatim>\<open><\<close> and \<^verbatim>\<open><=\<close>, so the numeric
  value of each constant is a parameter \<open>tv\<close> of every function that compares types.
\<close>

datatype Type = Any | File | Version | Object | Intermediate | Root

text \<open>
  \<^verbatim>\<open>resolv.EntityRef\<close>. \<^verbatim>\<open>Parent\<close> is a pointer; \<open>None\<close> is the nil pointer.
  Entity references are never mutated, so a reference is modelled by the value it points to.
\<close>

datatype EntityRef =
  EntityRef (ID: string) (Addr: string) (Parent: "EntityRef option") (Type: Type)

text \<open>The loop of \<^verbatim>\<open>Coords\<close>: \<open>ref\<close> runs up the parents, \<open>coords\<close> is prepended to.\<close>

fun Coords_loop :: "EntityRef option \<Rightarrow> string list \<Rightarrow> string list" where
  "Coords_loop None coords = coords"
| "Coords_loop (Some (EntityRef i a p t)) coords =
     (if t \<noteq> Root then Coords_loop p (i # coords) else coords)"

definition Coords :: "EntityRef \<Rightarrow> string list" where
  "Coords e = Coords_loop (Some e) []"

text \<open>The entity followed by its parents, nearest first.\<close>

fun chain :: "EntityRef \<Rightarrow> EntityRef list" where
  "chain (EntityRef i a None t) = [EntityRef i a None t]"
| "chain (EntityRef i a (Some p) t) = EntityRef i a (Some p) t # chain p"

text \<open>
  A well-formed parent chain: following \<^verbatim>\<open>Parent\<close> ends at a reference of type
  \<open>Root\<close> whose parent is nil, and no reference before it has type \<open>Root\<close>.
\<close>

fun well_formed :: "EntityRef \<Rightarrow> bool" where
  "well_formed (EntityRef i a None t) = (t = Root)"
| "well_formed (EntityRef i a (Some p) t) = (t \<noteq> Root \<and> well_formed p)"

section \<open>Scopes\<close>

datatype error = Msg string | Wrapped error string

record scope =
  root :: EntityRef
  startFrom :: EntityRef
  desired :: EntityRef

text \<open>
  \<^verbatim>\<open>findRoot\<close> is not among the sources: it is a parameter. A call returns either an
  error (and then no usable reference) or a reference.
\<close>

definition newScope ::
  "(EntityRef \<Rightarrow> Type \<Rightarrow> error + EntityRef) \<Rightarrow> EntityRef \<Rightarrow> Type \<Rightarrow> error + scope" where
  "newScope findRoot under_ref t =
     (case findRoot under_ref Root of
        Inl err \<Rightarrow> Inl err
      | Inr rt \<Rightarrow>
          Inr \<lparr> root = rt, startFrom = under_ref,
                desired = (if Type under_ref = t then under_ref else EntityRef [] [] None t) \<rparr>)"

text \<open>The loop of \<^verbatim>\<open>contains\<close>: \<open>a\<close> and \<open>b\<close> climb together while both have a parent.\<close>

fun coordLoop :: "EntityRef \<Rightarrow> EntityRef \<Rightarrow> bool" where
  "coordLoop (EntityRef ia aa (Some pa) ta) (EntityRef ib ab (Some pb) tb) =
     (if ia \<noteq> ib then False else coordLoop pa pb)"
| "coordLoop a b = True"

definition contains :: "(Type \<Rightarrow> int) \<Rightarrow> scope \<Rightarrow> EntityRef \<Rightarrow> bool" where
  "contains tv s r =
     (if Type (desired s) = Any then True
      else if Type r \<noteq> Type (startFrom s) then Type (desired s) = Type r
      else if \<not> coordLoop (desired s) r then False
      else tv (Type r) \<le> tv (Type (desired s)))"

section \<open>The collaborators of the walk\<close>

text \<open>\<^verbatim>\<open>metadata.File\<close>, as far as the walk reads it.\<close>

record metadata_File =
  LogicalPath :: string
  PhysicalPath :: string

text \<open>
  \<^verbatim>\<open>metadata.Inventory\<close>, as far as the walk reads it. \<open>Versions\<close> holds the keys of
  the map \<^verbatim>\<open>inv.Versions\<close> in the order in which this run's \<^verbatim>\<open>range\<close> visits them
  (the walk never reads the values of the map). \<open>Files\<close> is the method
  \<^verbatim>\<open>inv.Files\<close> with both of its results, the listing and the error.
\<close>

record Inventory =
  inv_ID :: string
  Versions :: "string list"
  Files :: "string \<Rightarrow> metadata_File list \<times> error option"

text \<open>
  A directory entry as \<^verbatim>\<open>godirwalk.Walk\<close> meets it: its path, the two flags the walk
  reads, the error of following the link or of reading its entries (if that fails), and its
  entries in the order in which they are visited. A symbolic link to a directory is followed
  and has the entries of its target. For the path the walk starts from, the flags are those
  of \<^verbatim>\<open>os.Stat\<close>, which follows links.
\<close>

datatype Dirent =
  Dirent (ospath: string) (IsDir: bool) (IsSymlink: bool)
         (readErr: "error option") (entries: "Dirent list")

text \<open>
  What the walk calls and the sources do not hold: the numeric values of the type
  constants, \<^verbatim>\<open>findRoot\<close>, \<^verbatim>\<open>isRoot\<close> (its boolean and its error), \<^verbatim>\<open>readMetadata\<close>,
  the file system (\<^verbatim>\<open>os.Stat\<close> of a path fails, or there is the tree that
  \<^verbatim>\<open>godirwalk.Walk\<close> enumerates from it), \<^verbatim>\<open>filepath.Join\<close> and \<^verbatim>\<open>filepath.ToSlash\<close>.
\<close>

record env =
  typeValue :: "Type \<Rightarrow> int"
  findRoot :: "EntityRef \<Rightarrow> Type \<Rightarrow> error + EntityRef"
  isRoot :: "string \<Rightarrow> Type \<Rightarrow> bool \<times> error option"
  readMetadata :: "string \<Rightarrow> error + Inventory"
  Stat :: "string \<Rightarrow> error + Dirent"
  Join :: "string \<Rightarrow> string \<Rightarrow> string"
  ToSlash :: "string \<Rightarrow> string"

text \<open>\<^verbatim>\<open>strings.TrimPrefix\<close>.\<close>

definition TrimPrefix :: "string \<Rightarrow> string \<Rightarrow> string" where
  "TrimPrefix s p = (if take (length p) s = p then drop (length p) s else s)"

section \<open>The walk\<close>

text \<open>
  The callback is any Go closure: what it returns may depend on the entities it was given
  before. The walk threads the list of entities given to the callback so far (the trace),
  and the callback reads it. A function of the walk ends normally, returns an error, or
  panics (a nil pointer is dereferenced).
\<close>

type_synonym trace = "EntityRef list"
type_synonym callback = "trace \<Rightarrow> EntityRef \<Rightarrow> error option"

datatype result = Ok | Err error | Panic

definition call :: "callback \<Rightarrow> EntityRef \<Rightarrow> trace \<Rightarrow> trace \<times> error option" where
  "call f e tr = (tr @ [e], f tr e)"

abbreviation (input) dontGoDeeper :: bool where "dontGoDeeper \<equiv> True"
abbreviation (input) goDeeper :: bool where "goDeeper \<equiv> False"

text \<open>The inner loop of \<^verbatim>\<open>walkVersions\<close>, over the files of one version.\<close>

fun filesLoop ::
  "env \<Rightarrow> scope \<Rightarrow> EntityRef \<Rightarrow> EntityRef \<Rightarrow> callback \<Rightarrow> metadata_File list \<Rightarrow> trace
     \<Rightarrow> trace \<times> result" where
  "filesLoop E s object version f [] tr = (tr, Ok)"
| "filesLoop E s object version f (file # files) tr =
     (let fileRef = EntityRef (LogicalPath file)
                      (Join E (Addr object) (PhysicalPath file)) (Some version) File
      in if \<not> contains (typeValue E) s fileRef then filesLoop E s object version f files tr
         else (case call f fileRef tr of
                 (tr', Some err) \<Rightarrow> (tr', Err err)
               | (tr', None) \<Rightarrow> filesLoop E s object version f files tr'))"

text \<open>The outer loop of \<^verbatim>\<open>walkVersions\<close>, over the version identifiers.\<close>

fun versionsLoop ::
  "env \<Rightarrow> scope \<Rightarrow> Inventory \<Rightarrow> EntityRef \<Rightarrow> callback \<Rightarrow> string list \<Rightarrow> trace
     \<Rightarrow> trace \<times> result" where
  "versionsLoop E s inventory object f [] tr = (tr, Ok)"
| "versionsLoop E s inventory object f (vID # vIDs) tr =
     (let version = EntityRef vID (Join E (Addr object) vID) (Some object) Version
      in case (if contains (typeValue E) s version then call f version tr else (tr, None)) of
           (tr1, Some err) \<Rightarrow> (tr1, Err err)
         | (tr1, None) \<Rightarrow>
             if typeValue E (Type (desired s)) \<le> typeValue E File then
               (case filesLoop E s object version f (fst (Files inventory vID)) tr1 of
                  (tr2, Ok) \<Rightarrow> versionsLoop E s inventory object f vIDs tr2
                | (tr2, r) \<Rightarrow> (tr2, r))
             else versionsLoop E s inventory object f vIDs tr1)"

text \<open>
  \<^verbatim>\<open>walkVersions\<close>. The error of \<^verbatim>\<open>findRoot\<close> is discarded and the reference is
  dereferenced at once: when \<^verbatim>\<open>findRoot\<close> fails, that is a nil dereference.
\<close>

definition walkVersions ::
  "env \<Rightarrow> scope \<Rightarrow> Inventory \<Rightarrow> EntityRef \<Rightarrow> callback \<Rightarrow> trace \<Rightarrow> trace \<times> result" where
  "walkVersions E s inventory object f tr =
     (if Type (startFrom s) = Version \<or> Type (startFrom s) = File then
        (case findRoot E (startFrom s) Version of
           Inl err \<Rightarrow> (tr, Panic)
         | Inr scopeVersion \<Rightarrow>
             if ID scopeVersion \<notin> set (Versions inventory) then
               (tr, Err (Msg (''No version '' @ ID scopeVersion @ '' exists in '' @ ID object)))
             else versionsLoop E s inventory object f [ID scopeVersion] tr)
      else versionsLoop E s inventory object f (Versions inventory) tr)"

definition walkObject ::
  "env \<Rightarrow> scope \<Rightarrow> string \<Rightarrow> callback \<Rightarrow> trace \<Rightarrow> trace \<times> result" where
  "walkObject E s path f tr =
     (case readMetadata E path of
        Inl err \<Rightarrow> (tr, Err err)
      | Inr inventory \<Rightarrow>
          (let object = EntityRef (inv_ID inventory) path (Some (root s)) Object
           in case (if contains (typeValue E) s object then call f object tr else (tr, None)) of
                (tr1, Some err) \<Rightarrow> (tr1, Err err)
              | (tr1, None) \<Rightarrow>
                  if typeValue E (Type (desired s)) \<le> typeValue E Version
                  then walkVersions E s inventory object f tr1
                  else (tr1, Ok)))"

text \<open>
  The closure that \<^verbatim>\<open>walk\<close> hands to \<^verbatim>\<open>fsWalk\<close>: whether the entry is terminal, and
  the error.
\<close>

definition visit ::
  "env \<Rightarrow> scope \<Rightarrow> callback \<Rightarrow> Dirent \<Rightarrow> trace \<Rightarrow> bool \<times> trace \<times> result" where
  "visit E s f e tr =
     (if \<not> IsDir e \<and> \<not> IsSymlink e then (dontGoDeeper, tr, Ok)
      else (case isRoot E (ospath e) Object of
              (objectRoot, None) \<Rightarrow>
                if objectRoot then (dontGoDeeper, walkObject E s (ospath e) f tr)
                else if ospath e \<noteq> Addr (root s)
                        \<and> contains (typeValue E) s (EntityRef [] [] None Intermediate)
                then (case call f (EntityRef
                                     (TrimPrefix (ToSlash E (TrimPrefix (ospath e) (Addr (root s)))) ''/'')
                                     (ospath e) (Some (root s)) Intermediate) tr of
                        (tr', Some err) \<Rightarrow> (dontGoDeeper, tr', Err err)
                      | (tr', None) \<Rightarrow> (goDeeper, tr', Ok))
                else (goDeeper, tr, Ok)
            | (objectRoot, Some err) \<Rightarrow> (dontGoDeeper, tr, Err err)))"

text \<open>
  The recursion \<^verbatim>\<open>walk\<close> of the package \<^verbatim>\<open>godirwalk\<close> over the entries, with the
  two callbacks of
  \<^verbatim>\<open>fsWalk\<close>: an error of the closure halts the walk, wrapped; a terminal entry is
  skipped (the \<^verbatim>\<open>skip\<close> value, which only \<^verbatim>\<open>fsWalk\<close> can make, is answered by
  \<^verbatim>\<open>SkipNode\<close>); otherwise the entries are read, which may fail and halt the walk, and
  walked in turn.
\<close>

fun godirwalk_walk :: "(Dirent \<Rightarrow> trace \<Rightarrow> bool \<times> trace \<times> result) \<Rightarrow> Dirent \<Rightarrow> trace \<Rightarrow> trace \<times> result"
  and godirwalk_walk_entries ::
    "(Dirent \<Rightarrow> trace \<Rightarrow> bool \<times> trace \<times> result) \<Rightarrow> Dirent list \<Rightarrow> trace \<Rightarrow> trace \<times> result" where
  "godirwalk_walk cb (Dirent p d l re es) tr =
     (case cb (Dirent p d l re es) tr of
        (terminal, tr', Err err) \<Rightarrow> (tr', Err (Wrapped err ''terminating walk due to error''))
      | (terminal, tr', Panic) \<Rightarrow> (tr', Panic)
      | (terminal, tr', Ok) \<Rightarrow>
          if terminal then (tr', Ok)
          else (case re of
                  Some err \<Rightarrow> (tr', Err err)
                | None \<Rightarrow> godirwalk_walk_entries cb es tr'))"
| "godirwalk_walk_entries cb [] tr = (tr, Ok)"
| "godirwalk_walk_entries cb (e # es) tr =
     (case godirwalk_walk cb e tr of
        (tr', Ok) \<Rightarrow> godirwalk_walk_entries cb es tr'
      | (tr', r) \<Rightarrow> (tr', r))"

text \<open>
  \<^verbatim>\<open>godirwalk.Walk\<close> itself: it refuses to start from a path that is not a directory.
\<close>

definition godirwalk_Walk ::
  "(Dirent \<Rightarrow> trace \<Rightarrow> bool \<times> trace \<times> result) \<Rightarrow> Dirent \<Rightarrow> trace \<Rightarrow> trace \<times> result" where
  "godirwalk_Walk cb e tr =
     (if \<not> IsDir e then (tr, Err (Msg (''cannot Walk non-directory: '' @ ospath e)))
      else godirwalk_walk cb e tr)"

definition fsWalk ::
  "env \<Rightarrow> string \<Rightarrow> (Dirent \<Rightarrow> trace \<Rightarrow> bool \<times> trace \<times> result) \<Rightarrow> trace \<Rightarrow> trace \<times> result" where
  "fsWalk E dir cb tr =
     (case Stat E dir of
        Inl err \<Rightarrow> (tr, Err (Wrapped err (''error walking directory '' @ dir)))
      | Inr e \<Rightarrow> godirwalk_Walk cb e tr)"

text \<open>
  \<^verbatim>\<open>walk\<close>: the entities given to the callback, in order, and how the walk ends. What
  the walk prints on the way is left out.
\<close>

definition walk :: "env \<Rightarrow> scope \<Rightarrow> callback \<Rightarrow> trace \<times> result" where
  "walk E s f =
     (case (if typeValue E (Type (startFrom s)) < typeValue E Object
            then findRoot E (startFrom s) Object else Inr (startFrom s)) of
        Inl err \<Rightarrow> ([], Err err)
      | Inr node \<Rightarrow>
          (case (if Type node = Root \<and> contains (typeValue E) s node
                 then call f node [] else ([], None)) of
             (tr1, Some err) \<Rightarrow> (tr1, Err err)
           | (tr1, None) \<Rightarrow>
               (let startPath = (if Addr node = [] then Addr (root s) else Addr node)
                in case fsWalk E startPath (visit E s f) tr1 of
                     (tr2, Err err) \<Rightarrow> (tr2, Err (Wrapped err ''error performing walk''))
                   | (tr2, r) \<Rightarrow> (tr2, r))))"

section \<open>Notions used in the statements\<close>

text \<open>
  The order of the type constants that \<^verbatim>\<open>walk\<close> relies on. Its comment on the test
  \<^verbatim>\<open>node.Type < ocfl.Object\<close> reads "somewhere underneath an OCFL object", and after
  it "node points to an ocfl root, intermediate node, or an ocfl object root": files and
  versions lie below objects, intermediate nodes and roots above.
\<close>

definition depthOrder :: "(Type \<Rightarrow> int) \<Rightarrow> bool" where
  "depthOrder tv = (tv File < tv Version \<and> tv Version < tv Object
                     \<and> tv Object < tv Intermediate \<and> tv Intermediate < tv Root)"

text \<open>One numbering of that kind, with the wildcard first.\<close>

fun declOrder :: "Type \<Rightarrow> int" where
  "declOrder Any = 0"
| "declOrder File = 1"
| "declOrder Version = 2"
| "declOrder Object = 3"
| "declOrder Intermediate = 4"
| "declOrder Root = 5"

text \<open>
  Modelled from the spec: the declaration of \<^verbatim>\<open>ocfl.Type\<close> is missing, and the data
  model of the specification orders the entity types as
  \<open>Root < Intermediate < Object < Version < File\<close>, with a wildcard \<open>Any\<close> (given the
  last number here).
\<close>

fun specOrder :: "Type \<Rightarrow> int" where
  "specOrder Root = 0"
| "specOrder Intermediate = 1"
| "specOrder Object = 2"
| "specOrder Version = 3"
| "specOrder File = 4"
| "specOrder Any = 5"

text \<open>
  The coordinate tuple in the words of the specification: the identifiers on the parent
  chain without its last reference (the root), from the top down to the entity.
\<close>

definition coordinates :: "EntityRef \<Rightarrow> string list" where
  "coordinates e = rev (map ID (butlast (chain e)))"

text \<open>
  The containment predicate in the words of the specification. The references that have a
  parent are all of the chain but the last; pairing the two chains position by position
  stops where the shorter one ends.
\<close>

definition lockstep :: "EntityRef \<Rightarrow> EntityRef \<Rightarrow> bool" where
  "lockstep a b = list_all (\<lambda>(x, y). ID x = ID y) (zip (butlast (chain a)) (butlast (chain b)))"

definition contains_ref :: "(Type \<Rightarrow> int) \<Rightarrow> scope \<Rightarrow> EntityRef \<Rightarrow> bool" where
  "contains_ref tv s r =
     (if Type (desired s) = Any then True
      else if Type r \<noteq> Type (startFrom s) then Type r = Type (desired s)
      else lockstep (desired s) r \<and> tv (Type r) \<le> tv (Type (desired s)))"

text \<open>
  The references that \<^verbatim>\<open>walkVersions\<close> builds for a version and for a file of it, and
  the file reference with the whole chain that \<^verbatim>\<open>walkObject\<close> builds under it for the
  object root \<open>p\<close> with the storage root \<open>rt\<close>.
\<close>

abbreviation (input) versionRef :: "env \<Rightarrow> EntityRef \<Rightarrow> string \<Rightarrow> EntityRef" where
  "versionRef E object vID \<equiv> EntityRef vID (Join E (Addr object) vID) (Some object) Version"

abbreviation (input) fileRef :: "env \<Rightarrow> EntityRef \<Rightarrow> EntityRef \<Rightarrow> metadata_File \<Rightarrow> EntityRef" where
  "fileRef E object version fl \<equiv>
     EntityRef (LogicalPath fl) (Join E (Addr object) (PhysicalPath fl)) (Some version) File"

abbreviation (input) fileEntity ::
  "env \<Rightarrow> EntityRef \<Rightarrow> string \<Rightarrow> Inventory \<Rightarrow> string \<Rightarrow> metadata_File \<Rightarrow> EntityRef" where
  "fileEntity E rt p inventory vID fl \<equiv>
     EntityRef (LogicalPath fl) (Join E p (PhysicalPath fl))
       (Some (EntityRef vID (Join E p vID)
          (Some (EntityRef (inv_ID inventory) p (Some rt) Object)) Version)) File"




text \<open>The trace \<open>tr'\<close> extends \<open>tr\<close> by entities that all satisfy \<open>P\<close>.\<close>

definition grows :: "(EntityRef \<Rightarrow> bool) \<Rightarrow> trace \<Rightarrow> trace \<Rightarrow> bool" where
  "grows P tr tr' = (\<exists>new. tr' = tr @ new \<and> list_all P new)"

text \<open>
  A layout on which no collaborator fails, as far as the walk looks: at every directory or
  link that is reached, the object probe gives no error; an object root has a manifest that
  loads, and nothing below it is visited; the entries of any other directory can be read
  and are such entries again.
\<close>

fun layout_ok :: "env \<Rightarrow> Dirent \<Rightarrow> bool" where
  "layout_ok E (Dirent p d l re es) =
     (if \<not> d \<and> \<not> l then True
      else (case isRoot E p Object of
              (objectRoot, Some err) \<Rightarrow> False
            | (objectRoot, None) \<Rightarrow>
                if objectRoot then (case readMetadata E p of Inl err \<Rightarrow> False | Inr i \<Rightarrow> True)
                else re = None \<and> (\<forall>e \<in> set es. layout_ok E e)))"

section \<open>An example layout\<close>

text \<open>
  A storage root \<open>/data\<close> with one object \<open>obj-A\<close> in \<open>/data/a\<close>; version \<open>v1\<close> has the
  file \<open>a.txt\<close>, version \<open>v2\<close> has \<open>a.txt\<close> and \<open>b.txt\<close>.
\<close>

definition ex_root :: EntityRef where
  "ex_root = EntityRef [] ''/data'' None Root"

definition ex_object :: EntityRef where
  "ex_object = EntityRef ''obj-A'' ''/data/a'' (Some ex_root) Object"

definition ex_version :: EntityRef where
  "ex_version = EntityRef ''v1'' ''/data/a/v1'' (Some ex_object) Version"

definition ex_file :: EntityRef where
  "ex_file = EntityRef ''a.txt'' ''/data/a/v1/content/a.txt'' (Some ex_version) File"

definition ex_inventory :: Inventory where
  "ex_inventory = \<lparr> inv_ID = ''obj-A'', Versions = [''v1'', ''v2''],
      Files = (\<lambda>v. if v = ''v1''
                     then ([\<lparr>LogicalPath = ''a.txt'', PhysicalPath = ''v1/content/a.txt''\<rparr>], None)
                   else if v = ''v2''
                     then ([\<lparr>LogicalPath = ''a.txt'', PhysicalPath = ''v1/content/a.txt''\<rparr>,
                            \<lparr>LogicalPath = ''b.txt'', PhysicalPath = ''v2/content/b.txt''\<rparr>], None)
                   else ([], Some (Msg ''no such version''))) \<rparr>"

definition ex_object_dir :: Dirent where
  "ex_object_dir = Dirent ''/data/a'' True False None
     [Dirent ''/data/a/inventory.json'' False False None []]"

definition ex_tree :: Dirent where
  "ex_tree = Dirent ''/data'' True False None [ex_object_dir]"

text \<open>A \<^verbatim>\<open>findRoot\<close> for the example: the nearest reference of the type on the chain.\<close>

definition ex_findRoot :: "EntityRef \<Rightarrow> Type \<Rightarrow> error + EntityRef" where
  "ex_findRoot r t = (case find (\<lambda>x. Type x = t) (chain r) of
                        None \<Rightarrow> Inl (Msg ''no root found'') | Some x \<Rightarrow> Inr x)"

definition ex_env :: "(Type \<Rightarrow> int) \<Rightarrow> env" where
  "ex_env tv = \<lparr> typeValue = tv, findRoot = ex_findRoot,
      isRoot = (\<lambda>p t. (p = ''/data/a'' \<and> t = Object, None)),
      readMetadata = (\<lambda>p. if p = ''/data/a'' then Inr ex_inventory
                            else Inl (Msg ''no inventory'')),
      Stat = (\<lambda>p. if p = ''/data'' then Inr ex_tree
                    else if p = ''/data/a'' then Inr ex_object_dir
                    else Inl (Msg ''no such file or directory'')),
      Join = (\<lambda>a b. a @ ''/'' @ b),
      ToSlash = (\<lambda>p. p) \<rparr>"

text \<open>The same object with a manifest whose listing of \<open>v1\<close> cannot be fetched.\<close>

definition ex_bad_inventory :: Inventory where
  "ex_bad_inventory = \<lparr> inv_ID = ''obj-A'', Versions = [''v1'', ''v2''],
      Files = (\<lambda>v. if v = ''v2''
                     then ([\<lparr>LogicalPath = ''b.txt'', PhysicalPath = ''v2/content/b.txt''\<rparr>], None)
                   else ([], Some (Msg ''state of version cannot be read''))) \<rparr>"

text \<open>Scopes on the example: everything of one type under the root.\<close>

definition ex_scope :: "Type \<Rightarrow> scope" where
  "ex_scope t = \<lparr>root = ex_root, startFrom = ex_root,
                 desired = (if t = Root then ex_root else EntityRef [] [] None t)\<rparr>"

text \<open>A callback that never fails.\<close>

definition ex_callback :: callback where
  "ex_callback tr e = None"

text \<open>The scope that resolves one entity: the entry point has the desired type.\<close>

definition ex_single :: "EntityRef \<Rightarrow> scope" where
  "ex_single e = \<lparr>root = ex_root, startFrom = e, desired = e\<rparr>"

text \<open>
  A second layout: the storage root \<open>/data\<close> holds the object \<open>obj-B\<close> in \<open>/data/b\<close>, with
  the versions \<open>v1\<close> and \<open>v3\<close>, and the object \<open>obj-A\<close> of the first example; \<open>/data/b\<close>
  is visited first.
\<close>

definition ex_inventory_B :: Inventory where
  "ex_inventory_B = \<lparr> inv_ID = ''obj-B'', Versions = [''v1'', ''v3''],
      Files = (\<lambda>v. if v = ''v1'' \<or> v = ''v3''
                     then ([\<lparr>LogicalPath = ''c.txt'', PhysicalPath = ''v1/content/c.txt''\<rparr>], None)
                   else ([], Some (Msg ''no such version''))) \<rparr>"

definition ex_object_dir_B :: Dirent where
  "ex_object_dir_B = Dirent ''/data/b'' True False None
     [Dirent ''/data/b/inventory.json'' False False None []]"

definition ex_tree2 :: Dirent where
  "ex_tree2 = Dirent ''/data'' True False None [ex_object_dir_B, ex_object_dir]"

definition ex_env2 :: env where
  "ex_env2 = \<lparr> typeValue = declOrder, findRoot = ex_findRoot,
      isRoot = (\<lambda>p t. ((p = ''/data/a'' \<or> p = ''/data/b'') \<and> t = Object, None)),
      readMetadata = (\<lambda>p. if p = ''/data/a'' then Inr ex_inventory
                            else if p = ''/data/b'' then Inr ex_inventory_B
                            else Inl (Msg ''no inventory'')),
      Stat = (\<lambda>p. if p = ''/data'' then Inr ex_tree2
                    else if p = ''/data/a'' then Inr ex_object_dir
                    else if p = ''/data/b'' then Inr ex_object_dir_B
                    else Inl (Msg ''no such file or directory'')),
      Join = (\<lambda>a b. a @ ''/'' @ b),
      ToSlash = (\<lambda>p. p) \<rparr>"



text \<open>
  The version \<open>v3\<close> of \<open>obj-B\<close> as a reference that holds the coordinates only, and a
  version of \<open>obj-A\<close> that its manifest does not have.
\<close>

definition ex_version3_coords :: EntityRef where
  "ex_version3_coords = EntityRef ''v3'' [] (Some (EntityRef ''obj-B'' [] (Some ex_root) Object)) Version"


definition ex_version9 :: EntityRef where
  "ex_version9 = EntityRef ''v9'' ''/data/a/v9'' (Some ex_object) Version"

section \<open>Properties\<close>

lemma Coords_loop_acc:
  "Coords_loop (Some e) acc = rev (map ID (takeWhile (\<lambda>r. Type r \<noteq> Root) (chain e))) @ acc"
proof (induction e arbitrary: acc rule: chain.induct)
  case (1 i a t)
  then show ?case by simp
next
  case (2 i a p t)
  then show ?case by simp
qed

lemma chain_not_Nil: "chain e \<noteq> []"
  by (cases e rule: chain.cases) auto

lemma takeWhile_well_formed:
  "well_formed e \<Longrightarrow> takeWhile (\<lambda>r. Type r \<noteq> Root) (chain e) = butlast (chain e)"
  by (induction e rule: chain.induct) (auto simp: chain_not_Nil)

text \<open>
  Claim C7. For an entity reference whose parent chain is well formed (following
  \<^verbatim>\<open>Parent\<close> ends at a reference of type \<open>Root\<close> with a nil parent, the first of
  that type on the way), \<^verbatim>\<open>Coords\<close> returns the identifiers on the chain from the
  topmost reference below the root down to the entity itself, the root left out.
\<close>

theorem Coords_correct:
  "well_formed e \<Longrightarrow> Coords e = coordinates e"
  by (simp add: Coords_def coordinates_def Coords_loop_acc takeWhile_well_formed)


theorem Coords_correct_witness:
  "well_formed ex_file \<and> Coords ex_file = coordinates ex_file
     \<and> coordinates ex_file = [''obj-A'', ''v1'', ''a.txt'']"
proof -
  have wf: "well_formed ex_file"
    by (simp add: ex_file_def ex_version_def ex_object_def ex_root_def)
  have "coordinates ex_file = [''obj-A'', ''v1'', ''a.txt'']"
    by (simp add: coordinates_def ex_file_def ex_version_def ex_object_def ex_root_def)
  then show ?thesis using wf Coords_correct [OF wf] by simp
qed

lemma coordLoop_lockstep: "coordLoop a b = lockstep a b"
  unfolding lockstep_def
  by (induction a b rule: coordLoop.induct) (auto simp: chain_not_Nil)

text \<open>
  Claim C1. For every scope that \<^verbatim>\<open>newScope\<close> builds and every candidate,
  \<^verbatim>\<open>contains\<close> is the reference predicate: true when the desired type is \<open>Any\<close>;
  otherwise, when the type of the candidate differs from the type of the entry point,
  true iff the candidate has the desired type; otherwise true iff the identifiers paired
  on the two parent chains, as long as both references have a parent, are equal and the
  type of the candidate is at most the desired type. In such a scope the desired
  reference is the entry point whenever the two have the same type; when they have not,
  the desired reference has no parent and the pairing is empty.
\<close>

theorem contains_reference:
  assumes "newScope fr u t = Inr s"
  shows "contains tv s r = contains_ref tv s r
     \<and> (Type (startFrom s) = Type (desired s) \<longrightarrow> desired s = startFrom s)
     \<and> (Type (startFrom s) \<noteq> Type (desired s) \<longrightarrow> lockstep (desired s) r)"
proof -
  have "contains tv s r = contains_ref tv s r"
    by (auto simp: contains_def contains_ref_def coordLoop_lockstep)
  moreover have "Type (startFrom s) = Type (desired s) \<longrightarrow> desired s = startFrom s"
    using assms by (auto simp: newScope_def split: sum.splits if_splits)
  moreover have "Type (startFrom s) \<noteq> Type (desired s) \<longrightarrow> lockstep (desired s) r"
    using assms by (auto simp: newScope_def lockstep_def split: sum.splits if_splits)
  ultimately show ?thesis by blast
qed



lemma grows_refl [simp]: "grows P tr tr"
  by (simp add: grows_def)

lemma grows_trans: "grows P a b \<Longrightarrow> grows P b c \<Longrightarrow> grows P a c"
  by (auto simp: grows_def)

lemma grows_snoc: "P e \<Longrightarrow> grows P tr (tr @ [e])"
  by (simp add: grows_def)

lemma grows_step: "P e \<Longrightarrow> grows P (tr @ [e]) tr' \<Longrightarrow> grows P tr tr'"
  by (auto simp: grows_def)

lemma filesLoop_grows:
  "(\<And>fl. fl \<in> set files
        \<Longrightarrow> contains (typeValue E) s (fileRef E object version fl)
        \<Longrightarrow> P (fileRef E object version fl))
   \<Longrightarrow> filesLoop E s object version f files tr = (tr', r) \<Longrightarrow> grows P tr tr'"
proof (induction files arbitrary: tr)
  case Nil
  then show ?case by simp
next
  case (Cons fl files)
  let ?r = "fileRef E object version fl"
  have IH: "filesLoop E s object version f files t = (tr', r) \<Longrightarrow> grows P t tr'" for t
    using Cons.IH Cons.prems(1) by simp
  show ?case
  proof (cases "contains (typeValue E) s ?r")
    case False
    then show ?thesis using Cons.prems(2) IH by simp
  next
    case True
    then have P: "P ?r" using Cons.prems(1) by simp
    show ?thesis
      using True Cons.prems(2) IH [of "tr @ [?r]"] P
      by (auto simp: call_def Let_def split: option.splits intro: grows_snoc grows_step)
  qed
qed

lemma versionsLoop_grows:
  assumes ver: "\<And>e. Type e = Version \<Longrightarrow> contains (typeValue E) s e \<Longrightarrow> P e"
  shows "(\<And>vID fl. vID \<in> set vIDs \<Longrightarrow> fl \<in> set (fst (Files inventory vID))
            \<Longrightarrow> typeValue E (Type (desired s)) \<le> typeValue E File
            \<Longrightarrow> contains (typeValue E) s (fileRef E object (versionRef E object vID) fl)
            \<Longrightarrow> P (fileRef E object (versionRef E object vID) fl))
         \<Longrightarrow> versionsLoop E s inventory object f vIDs tr = (tr', r) \<Longrightarrow> grows P tr tr'"
proof (induction vIDs arbitrary: tr)
  case Nil
  then show ?case by simp
next
  case (Cons vID vIDs)
  let ?v = "versionRef E object vID"
  define tr1 where "tr1 = (if contains (typeValue E) s ?v then tr @ [?v] else tr)"
  have g1: "grows P tr tr1"
    using ver [of ?v] by (auto simp: tr1_def intro: grows_snoc)
  have IH: "versionsLoop E s inventory object f vIDs t = (tr', r) \<Longrightarrow> grows P t tr'" for t
    using Cons.IH Cons.prems(1) by simp
  have fl: "grows P tr1 t2"
    if "typeValue E (Type (desired s)) \<le> typeValue E File"
      and "filesLoop E s object ?v f (fst (Files inventory vID)) tr1 = (t2, r2)" for t2 r2
  proof (rule filesLoop_grows [where P = P and E = E and s = s])
    show "filesLoop E s object ?v f (fst (Files inventory vID)) tr1 = (t2, r2)" by (rule that(2))
  qed (use that(1) Cons.prems(1) in simp)
  have "grows P tr1 tr'"
    using Cons.prems(2) IH fl
    by (auto simp: call_def tr1_def Let_def split: option.splits prod.splits result.splits if_splits
             intro: grows_trans)
  then show ?case using g1 by (rule grows_trans [rotated])
qed

lemma walkVersions_grows:
  assumes ver: "\<And>e. Type e = Version \<Longrightarrow> contains (typeValue E) s e \<Longrightarrow> P e"
    and fil: "\<And>vID fl. vID \<in> set (Versions inventory) \<Longrightarrow> fl \<in> set (fst (Files inventory vID))
            \<Longrightarrow> typeValue E (Type (desired s)) \<le> typeValue E File
            \<Longrightarrow> contains (typeValue E) s (fileRef E object (versionRef E object vID) fl)
            \<Longrightarrow> P (fileRef E object (versionRef E object vID) fl)"
    and "walkVersions E s inventory object f tr = (tr', r)"
  shows "grows P tr tr'"
proof -
  have vl: "grows P tr tr'"
    if "versionsLoop E s inventory object f vIDs tr = (tr', r)"
      and "set vIDs \<subseteq> set (Versions inventory)" for vIDs
  proof (rule versionsLoop_grows [where P = P and E = E and s = s])
    show "versionsLoop E s inventory object f vIDs tr = (tr', r)" by (rule that(1))
  qed (use that(2) ver fil in auto)
  show ?thesis
    using assms(3) vl
    by (auto simp: walkVersions_def simp del: versionsLoop.simps split: if_splits sum.splits)
qed

lemma walkObject_grows:
  assumes obj: "\<And>e. Type e = Object \<Longrightarrow> contains (typeValue E) s e \<Longrightarrow> P e"
    and ver: "\<And>e. Type e = Version \<Longrightarrow> typeValue E (Type (desired s)) \<le> typeValue E Version
                \<Longrightarrow> contains (typeValue E) s e \<Longrightarrow> P e"
    and fil: "\<And>inventory vID fl. readMetadata E path = Inr inventory
            \<Longrightarrow> vID \<in> set (Versions inventory) \<Longrightarrow> fl \<in> set (fst (Files inventory vID))
            \<Longrightarrow> typeValue E (Type (desired s)) \<le> typeValue E Version
            \<Longrightarrow> typeValue E (Type (desired s)) \<le> typeValue E File
            \<Longrightarrow> contains (typeValue E) s (fileEntity E (root s) path inventory vID fl)
            \<Longrightarrow> P (fileEntity E (root s) path inventory vID fl)"
    and "walkObject E s path f tr = (tr', r)"
  shows "grows P tr tr'"
proof (cases "readMetadata E path")
  case (Inl err)
  then show ?thesis using assms(4) by (simp add: walkObject_def)
next
  case (Inr inventory)
  let ?o = "EntityRef (inv_ID inventory) path (Some (root s)) Object"
  define tr1 where "tr1 = (if contains (typeValue E) s ?o then tr @ [?o] else tr)"
  have g1: "grows P tr tr1"
    using obj [of ?o] by (auto simp: tr1_def intro: grows_snoc)
  have wv: "grows P tr1 t2"
    if "typeValue E (Type (desired s)) \<le> typeValue E Version"
      and "walkVersions E s inventory ?o f tr1 = (t2, r2)" for t2 r2
  proof (rule walkVersions_grows [where P = P and E = E and s = s])
    show "walkVersions E s inventory ?o f tr1 = (t2, r2)" by (rule that(2))
  qed (use that(1) ver fil [OF Inr] in auto)
  have "grows P tr1 tr'"
    using assms(4) Inr wv
    by (auto simp: walkObject_def call_def tr1_def Let_def
             split: option.splits prod.splits if_splits)
  then show ?thesis using g1 by (rule grows_trans [rotated])
qed

lemma visit_grows:
  assumes obj: "\<And>e. Type e = Object \<Longrightarrow> contains (typeValue E) s e \<Longrightarrow> P e"
    and ver: "\<And>e. Type e = Version \<Longrightarrow> typeValue E (Type (desired s)) \<le> typeValue E Version
                \<Longrightarrow> contains (typeValue E) s e \<Longrightarrow> P e"
    and fil: "\<And>p inventory vID fl. isRoot E p Object = (True, None)
            \<Longrightarrow> readMetadata E p = Inr inventory
            \<Longrightarrow> vID \<in> set (Versions inventory) \<Longrightarrow> fl \<in> set (fst (Files inventory vID))
            \<Longrightarrow> typeValue E (Type (desired s)) \<le> typeValue E Version
            \<Longrightarrow> typeValue E (Type (desired s)) \<le> typeValue E File
            \<Longrightarrow> contains (typeValue E) s (fileEntity E (root s) p inventory vID fl)
            \<Longrightarrow> P (fileEntity E (root s) p inventory vID fl)"
    and int: "\<And>e. Type e = Intermediate
                \<Longrightarrow> contains (typeValue E) s (EntityRef [] [] None Intermediate) \<Longrightarrow> P e"
    and "visit E s f d tr = (terminal, tr', r)"
  shows "grows P tr tr'"
proof -
  have wo: "grows P tr t2"
    if "isRoot E (ospath d) Object = (True, None)"
      and "walkObject E s (ospath d) f tr = (t2, r2)" for t2 r2
  proof (rule walkObject_grows [where P = P and E = E and s = s])
    show "walkObject E s (ospath d) f tr = (t2, r2)" by (rule that(2))
  qed (use obj ver fil [OF that(1)] in auto)
  let ?i = "EntityRef (TrimPrefix (ToSlash E (TrimPrefix (ospath d) (Addr (root s)))) ''/'')
              (ospath d) (Some (root s)) Intermediate"
  have "contains (typeValue E) s (EntityRef [] [] None Intermediate) \<Longrightarrow> P ?i"
    using int [of ?i] by simp
  then show ?thesis
    using assms(5) wo
    by (auto simp: visit_def call_def split: option.splits prod.splits if_splits
             intro: grows_snoc)
qed

lemma godirwalk_grows:
  fixes cb :: "Dirent \<Rightarrow> trace \<Rightarrow> bool \<times> trace \<times> result"
  shows "(\<And>d tr terminal tr' r. cb d tr = (terminal, tr', r) \<Longrightarrow> grows P tr tr')
           \<Longrightarrow> godirwalk_walk cb d tr = (tr', r) \<Longrightarrow> grows P tr tr'"
    and "(\<And>d tr terminal tr' r. cb d tr = (terminal, tr', r) \<Longrightarrow> grows P tr tr')
           \<Longrightarrow> godirwalk_walk_entries cb ds tr = (tr', r) \<Longrightarrow> grows P tr tr'"
proof (induction cb d tr and cb ds tr arbitrary: tr' r and tr' r
       rule: godirwalk_walk_godirwalk_walk_entries.induct)
  case (1 cb p d l re es tr)
  obtain terminal t1 r1 where c: "cb (Dirent p d l re es) tr = (terminal, t1, r1)"
    by (cases "cb (Dirent p d l re es) tr") auto
  have g1: "grows P tr t1" using "1.prems"(1) [OF c] .
  have "grows P t1 tr'"
    using "1.prems" c "1.IH" [OF c [symmetric] refl]
    by (auto split: result.splits if_splits option.splits)
  then show ?case using g1 by (rule grows_trans [rotated])
next
  case (2 cb tr)
  then show ?case by simp
next
  case (3 cb e es tr)
  obtain t1 r1 where c: "godirwalk_walk cb e tr = (t1, r1)"
    by (cases "godirwalk_walk cb e tr") auto
  have g1: "grows P tr t1" using "3.IH"(1) [OF "3.prems"(1) c] by simp
  have "grows P t1 tr'"
    using "3.prems" c "3.IH"(2) [OF c [symmetric]]
    by (auto split: result.splits)
  then show ?case using g1 by (rule grows_trans [rotated])
qed



theorem contains_reference_witness:
  "newScope ex_findRoot ex_version Version
     = Inr \<lparr>root = ex_root, startFrom = ex_version, desired = ex_version\<rparr>
   \<and> contains_ref declOrder \<lparr>root = ex_root, startFrom = ex_version, desired = ex_version\<rparr>
        (EntityRef ''v1'' ''/elsewhere'' (Some ex_object) Version)
   \<and> \<not> contains_ref declOrder \<lparr>root = ex_root, startFrom = ex_version, desired = ex_version\<rparr>
        (EntityRef ''v2'' ''/data/a/v2'' (Some ex_object) Version)"
proof -
  let ?s = "\<lparr>root = ex_root, startFrom = ex_version, desired = ex_version\<rparr>"
  have n: "newScope ex_findRoot ex_version Version = Inr ?s"
    by (simp add: newScope_def ex_findRoot_def ex_version_def ex_object_def ex_root_def)
  have "contains declOrder ?s (EntityRef ''v1'' ''/elsewhere'' (Some ex_object) Version)"
    by (simp add: contains_def ex_version_def ex_object_def ex_root_def)
  moreover have "\<not> contains declOrder ?s (EntityRef ''v2'' ''/data/a/v2'' (Some ex_object) Version)"
    by (simp add: contains_def ex_version_def ex_object_def ex_root_def)
  ultimately show ?thesis
    using n contains_reference [OF n, of declOrder] by simp
qed

text \<open>
  Claim C8. \<^verbatim>\<open>newScope\<close> fails exactly when the resolution of the storage root above
  the entry point fails, with that error; when it succeeds, the root of the scope is the
  resolved root, the entry point is kept, and the desired reference is the entry point
  itself when the entry point has the target type and otherwise a reference with no field
  set but the type. The result depends on the collaborators through that one resolution
  only.
\<close>

theorem newScope_construction:
  "(\<forall>err. newScope fr u t = Inl err \<longleftrightarrow> fr u Root = Inl err)
   \<and> (\<forall>s. newScope fr u t = Inr s \<longleftrightarrow>
          (\<exists>rt. fr u Root = Inr rt \<and> root s = rt \<and> startFrom s = u
                \<and> desired s = (if Type u = t then u else EntityRef [] [] None t)))
   \<and> (\<forall>fr'. fr' u Root = fr u Root \<longrightarrow> newScope fr' u t = newScope fr u t)"
  by (cases "fr u Root") (auto simp: newScope_def)


theorem newScope_construction_witness:
  "newScope ex_findRoot ex_version File
     = Inr \<lparr>root = ex_root, startFrom = ex_version, desired = EntityRef [] [] None File\<rparr>
   \<and> newScope ex_findRoot ex_version Version
     = Inr \<lparr>root = ex_root, startFrom = ex_version, desired = ex_version\<rparr>
   \<and> newScope ex_findRoot (EntityRef [] ''/tmp'' None Intermediate) Object
     = Inl (Msg ''no root found'')"
proof -
  have r: "ex_findRoot ex_version Root = Inr ex_root"
    by (simp add: ex_findRoot_def ex_version_def ex_object_def ex_root_def)
  have t: "Type ex_version = Version" by (simp add: ex_version_def)
  have e: "ex_findRoot (EntityRef [] ''/tmp'' None Intermediate) Root = Inl (Msg ''no root found'')"
    by (simp add: ex_findRoot_def)
  have a: "newScope ex_findRoot ex_version File
     = Inr \<lparr>root = ex_root, startFrom = ex_version, desired = EntityRef [] [] None File\<rparr>"
    using newScope_construction [of ex_findRoot ex_version File, THEN conjunct2, THEN conjunct1,
        THEN spec, of "\<lparr>root = ex_root, startFrom = ex_version, desired = EntityRef [] [] None File\<rparr>"]
    by (simp add: r t)
  have b: "newScope ex_findRoot ex_version Version
     = Inr \<lparr>root = ex_root, startFrom = ex_version, desired = ex_version\<rparr>"
    using newScope_construction [of ex_findRoot ex_version Version, THEN conjunct2, THEN conjunct1,
        THEN spec, of "\<lparr>root = ex_root, startFrom = ex_version, desired = ex_version\<rparr>"]
    by (simp add: r t)
  have c: "newScope ex_findRoot (EntityRef [] ''/tmp'' None Intermediate) Object
     = Inl (Msg ''no root found'')"
    using newScope_construction [of ex_findRoot "EntityRef [] ''/tmp'' None Intermediate" Object,
        THEN conjunct1, THEN spec, of "Msg ''no root found''"]
    by (simp add: e)
  show ?thesis using a b c by simp
qed


lemmas ex_defs = ex_root_def ex_object_def ex_version_def ex_file_def ex_inventory_def
  ex_object_dir_def ex_tree_def ex_findRoot_def ex_env_def ex_scope_def ex_callback_def

lemmas walk_defs = walk_def fsWalk_def godirwalk_Walk_def visit_def walkObject_def
  walkVersions_def contains_def call_def TrimPrefix_def Let_def

text \<open>
  Claim C6, as amended. With the type constants ordered as the walk relies on
  (\<open>File < Version < Object < Intermediate < Root\<close>) and a desired type other than the
  wildcard: once the manifest is loaded and the object is reported if it is in scope,
  \<^verbatim>\<open>walkObject\<close> goes on to the versions exactly when the desired type is \<open>Version\<close>
  or \<open>File\<close>; for \<open>Root\<close>, \<open>Intermediate\<close> and \<open>Object\<close> it is finished, and nothing
  under the object is reported.
\<close>

theorem walkObject_descent:
  assumes "depthOrder (typeValue E)"
    and "Type (desired s) \<noteq> Any"
    and "readMetadata E path = Inr inventory"
    and "obj = EntityRef (inv_ID inventory) path (Some (root s)) Object"
  shows "walkObject E s path f tr =
           (case (if contains (typeValue E) s obj then call f obj tr else (tr, None)) of
              (tr1, Some err) \<Rightarrow> (tr1, Err err)
            | (tr1, None) \<Rightarrow>
                if Type (desired s) = Version \<or> Type (desired s) = File
                then walkVersions E s inventory obj f tr1
                else (tr1, Ok))"
proof -
  have "typeValue E (Type (desired s)) \<le> typeValue E Version
          \<longleftrightarrow> Type (desired s) = Version \<or> Type (desired s) = File"
    using assms(1,2) by (cases "Type (desired s)") (auto simp: depthOrder_def)
  then show ?thesis
    using assms(3,4) by (auto simp: walkObject_def Let_def split: prod.splits option.splits)
qed

text \<open>
  The claim C6 as stated fails: with the constants ordered
  \<open>Root < Intermediate < Object < Version < File\<close>, the test
  \<^verbatim>\<open>desired.Type <= Version\<close> keeps a walk for files out of the versions (no file of
  the example object is reported), and lets a walk for roots in (it meets the check of the
  entry version there).
\<close>

theorem walkObject_descent_counterexample:
  "specOrder Root < specOrder Intermediate \<and> specOrder Intermediate < specOrder Object
   \<and> specOrder Object < specOrder Version \<and> specOrder Version < specOrder File
   \<and> newScope (findRoot (ex_env specOrder)) ex_root File = Inr (ex_scope File)
   \<and> walkObject (ex_env specOrder) (ex_scope File) ''/data/a'' ex_callback [] = ([], Ok)
   \<and> newScope (findRoot (ex_env specOrder))
         (EntityRef ''v9'' ''/data/a/v9'' (Some ex_object) Version) Root
       = Inr \<lparr>root = ex_root, startFrom = EntityRef ''v9'' ''/data/a/v9'' (Some ex_object) Version,
              desired = EntityRef [] [] None Root\<rparr>
   \<and> walkObject (ex_env specOrder)
         \<lparr>root = ex_root, startFrom = EntityRef ''v9'' ''/data/a/v9'' (Some ex_object) Version,
          desired = EntityRef [] [] None Root\<rparr> ''/data/a'' ex_callback []
       = ([], Err (Msg ''No version v9 exists in obj-A''))"
  by (simp add: newScope_def walkObject_def walkVersions_def contains_def call_def Let_def ex_defs)


theorem walkObject_descent_witness:
  "depthOrder declOrder
   \<and> map Coords (fst (walkObject (ex_env declOrder) (ex_scope File) ''/data/a'' ex_callback []))
       = [[''obj-A'', ''v1'', ''a.txt''], [''obj-A'', ''v2'', ''a.txt''], [''obj-A'', ''v2'', ''b.txt'']]
   \<and> walkObject (ex_env declOrder) (ex_scope Object) ''/data/a'' ex_callback []
       = ([ex_object], Ok)"
proof -
  have d: "depthOrder (typeValue (ex_env declOrder))"
    by (simp add: depthOrder_def ex_env_def)
  have m: "readMetadata (ex_env declOrder) ''/data/a'' = Inr ex_inventory"
    by (simp add: ex_env_def)
  have o: "ex_object = EntityRef (inv_ID ex_inventory) ''/data/a'' (Some (root (ex_scope t))) Object"
    for t by (simp add: ex_defs)
  have f: "walkObject (ex_env declOrder) (ex_scope File) ''/data/a'' ex_callback [] =
             walkVersions (ex_env declOrder) (ex_scope File) ex_inventory ex_object ex_callback []"
    using walkObject_descent [OF d _ m o, of File ex_callback "[]"]
    by (simp add: contains_def ex_defs)
  have g: "walkObject (ex_env declOrder) (ex_scope Object) ''/data/a'' ex_callback []
             = ([ex_object], Ok)"
    using walkObject_descent [OF d _ m o, of Object ex_callback "[]"]
    by (simp add: contains_def call_def ex_defs)
  have "map Coords (fst (walkVersions (ex_env declOrder) (ex_scope File) ex_inventory ex_object
                      ex_callback []))
       = [[''obj-A'', ''v1'', ''a.txt''], [''obj-A'', ''v2'', ''a.txt''], [''obj-A'', ''v2'', ''b.txt'']]"
    by (simp add: walkVersions_def contains_def call_def Coords_def Let_def ex_defs)
  then show ?thesis using d f g by (simp add: ex_env_def)
qed

lemma walkVersions_narrowing:
  assumes "Type (startFrom s) = Version \<or> Type (startFrom s) = File"
    and "findRoot E (startFrom s) Version = Inr scopeVersion"
  shows "(ID scopeVersion \<notin> set (Versions inventory) \<longrightarrow>
            walkVersions E s inventory object f tr
              = (tr, Err (Msg (''No version '' @ ID scopeVersion @ '' exists in '' @ ID object))))
       \<and> (ID scopeVersion \<in> set (Versions inventory) \<longrightarrow>
            walkVersions E s inventory object f tr
              = versionsLoop E s inventory object f [ID scopeVersion] tr)"
  using assms by (simp add: walkVersions_def del: versionsLoop.simps)

text \<open>
  Claim C4 fails on the code: \<^verbatim>\<open>walkVersions\<close> drops the error of \<^verbatim>\<open>inv.Files\<close>.
  On a manifest whose listing of \<open>v1\<close> cannot be fetched, the walk for files goes on to
  \<open>v2\<close>, reports its file and ends without an error.
\<close>

theorem walkVersions_discards_Files_error:
  "snd (Files ex_bad_inventory ''v1'') = Some (Msg ''state of version cannot be read'')
   \<and> walkVersions (ex_env declOrder) (ex_scope File) ex_bad_inventory ex_object ex_callback []
       = ([EntityRef ''b.txt'' ''/data/a/v2/content/b.txt''
             (Some (EntityRef ''v2'' ''/data/a/v2'' (Some ex_object) Version)) File], Ok)"
  by (simp add: walkVersions_def contains_def call_def Let_def ex_bad_inventory_def ex_defs)

lemma fsWalk_visit_grows:
  assumes obj: "\<And>e. Type e = Object \<Longrightarrow> contains (typeValue E) s e \<Longrightarrow> P e"
    and ver: "\<And>e. Type e = Version \<Longrightarrow> typeValue E (Type (desired s)) \<le> typeValue E Version
                \<Longrightarrow> contains (typeValue E) s e \<Longrightarrow> P e"
    and fil: "\<And>p inventory vID fl. isRoot E p Object = (True, None)
            \<Longrightarrow> readMetadata E p = Inr inventory
            \<Longrightarrow> vID \<in> set (Versions inventory) \<Longrightarrow> fl \<in> set (fst (Files inventory vID))
            \<Longrightarrow> typeValue E (Type (desired s)) \<le> typeValue E Version
            \<Longrightarrow> typeValue E (Type (desired s)) \<le> typeValue E File
            \<Longrightarrow> contains (typeValue E) s (fileEntity E (root s) p inventory vID fl)
            \<Longrightarrow> P (fileEntity E (root s) p inventory vID fl)"
    and int: "\<And>e. Type e = Intermediate
                \<Longrightarrow> contains (typeValue E) s (EntityRef [] [] None Intermediate) \<Longrightarrow> P e"
    and "fsWalk E dir (visit E s f) tr = (tr', r)"
  shows "grows P tr tr'"
proof -
  have v: "grows P t t'" if "visit E s f d t = (terminal, t', r')" for d t terminal t' r'
    using obj ver fil int that by (rule visit_grows)
  show ?thesis
    using assms(5) godirwalk_grows(1) [of "visit E s f" P, OF v]
    by (auto simp: fsWalk_def godirwalk_Walk_def split: sum.splits if_splits)
qed

lemma walk_grows:
  assumes node: "\<And>e. Type e = Root \<Longrightarrow> contains (typeValue E) s e \<Longrightarrow> P e"
    and obj: "\<And>e. Type e = Object \<Longrightarrow> contains (typeValue E) s e \<Longrightarrow> P e"
    and ver: "\<And>e. Type e = Version \<Longrightarrow> typeValue E (Type (desired s)) \<le> typeValue E Version
                \<Longrightarrow> contains (typeValue E) s e \<Longrightarrow> P e"
    and fil: "\<And>p inventory vID fl. isRoot E p Object = (True, None)
            \<Longrightarrow> readMetadata E p = Inr inventory
            \<Longrightarrow> vID \<in> set (Versions inventory) \<Longrightarrow> fl \<in> set (fst (Files inventory vID))
            \<Longrightarrow> typeValue E (Type (desired s)) \<le> typeValue E Version
            \<Longrightarrow> typeValue E (Type (desired s)) \<le> typeValue E File
            \<Longrightarrow> contains (typeValue E) s (fileEntity E (root s) p inventory vID fl)
            \<Longrightarrow> P (fileEntity E (root s) p inventory vID fl)"
    and int: "\<And>e. Type e = Intermediate
                \<Longrightarrow> contains (typeValue E) s (EntityRef [] [] None Intermediate) \<Longrightarrow> P e"
  shows "list_all P (fst (walk E s f))"
proof -
  have fw: "grows P t t'" if "fsWalk E dir (visit E s f) t = (t', r')" for dir t t' r'
    using obj ver fil int that by (rule fsWalk_visit_grows)
  define n where "n = (if typeValue E (Type (startFrom s)) < typeValue E Object
            then findRoot E (startFrom s) Object else Inr (startFrom s))"
  show ?thesis
  proof (cases n)
    case (Inl err)
    then show ?thesis by (simp add: walk_def n_def [symmetric])
  next
    case (Inr node)
    define tr1 where "tr1 = (if Type node = Root \<and> contains (typeValue E) s node then [node] else [])"
    have g1: "grows P [] tr1"
      using node [of node] by (auto simp: tr1_def grows_def)
    define sp where "sp = (if Addr node = [] then Addr (root s) else Addr node)"
    obtain t2 r2 where w: "fsWalk E sp (visit E s f) tr1 = (t2, r2)"
      by (cases "fsWalk E sp (visit E s f) tr1") auto
    have g2: "grows P tr1 t2" using fw [OF w] .
    have "fst (walk E s f) = tr1 \<or> fst (walk E s f) = t2"
      using Inr w
      by (auto simp: walk_def n_def [symmetric] call_def tr1_def sp_def [symmetric]
               split: option.splits result.splits)
    then have "grows P [] (fst (walk E s f))"
      using g1 grows_trans [OF g1 g2] by auto
    then show ?thesis by (simp add: grows_def)
  qed
qed

lemma contains_bare:
  "contains tv \<lparr>root = rt, startFrom = u, desired = EntityRef [] [] None t\<rparr> e
     \<longleftrightarrow> t = Any \<or> (Type e \<noteq> Type u \<and> Type e = t) \<or> (Type e = Type u \<and> tv (Type e) \<le> tv t)"
  by (auto simp: contains_def)

text \<open>
  Claim C9. With the type constants ordered as the walk relies on, a walk for versions
  whose entry point is not a version gives the callback entities of type \<open>Version\<close> only,
  at every place where the callback is invoked (the trace holds every invocation).
\<close>

theorem walk_Version_only:
  assumes "depthOrder (typeValue E)"
    and "newScope (findRoot E) u Version = Inr s"
    and "Type u \<noteq> Version"
  shows "\<forall>e \<in> set (fst (walk E s f)). Type e = Version"
proof -
  obtain rt where s: "s = \<lparr>root = rt, startFrom = u, desired = EntityRef [] [] None Version\<rparr>"
    using assms(2,3) by (auto simp: newScope_def split: sum.splits)
  have d: "desired s = EntityRef [] [] None Version" by (simp add: s)
  have "list_all (\<lambda>e. Type e = Version) (fst (walk E s f))"
  proof (rule walk_grows)
    fix e assume "Type e = Root" "contains (typeValue E) s e"
    then show "Type e = Version"
      using assms(1) by (auto simp: s contains_bare depthOrder_def)
  next
    fix e assume "Type e = Object" "contains (typeValue E) s e"
    then show "Type e = Version"
      using assms(1) by (auto simp: s contains_bare depthOrder_def)
  next
    fix e assume "Type e = Version"
    then show "Type e = Version" .
  next
    fix p inventory vID fl
    assume "typeValue E (Type (desired s)) \<le> typeValue E File"
    then show "Type (fileEntity E (root s) p inventory vID fl) = Version"
      using assms(1) by (auto simp: d depthOrder_def)
  next
    fix e assume "Type e = Intermediate"
      "contains (typeValue E) s (EntityRef [] [] None Intermediate)"
    then show "Type e = Version"
      using assms(1) by (auto simp: s contains_bare depthOrder_def)
  qed
  then show ?thesis by (simp add: list_all_iff)
qed


theorem walk_Version_only_witness:
  "depthOrder (typeValue (ex_env declOrder))
   \<and> newScope (findRoot (ex_env declOrder)) ex_root Version = Inr (ex_scope Version)
   \<and> Type ex_root \<noteq> Version
   \<and> list_all (\<lambda>e. Type e = Version)
         (fst (walk (ex_env declOrder) (ex_scope Version) ex_callback))
   \<and> map Coords (fst (walk (ex_env declOrder) (ex_scope Version) ex_callback))
       = [[''obj-A'', ''v1''], [''obj-A'', ''v2'']]"
proof -
  have d: "depthOrder (typeValue (ex_env declOrder))"
    by (simp add: depthOrder_def ex_env_def)
  have n: "newScope (findRoot (ex_env declOrder)) ex_root Version = Inr (ex_scope Version)"
    by (simp add: newScope_def ex_defs)
  have t: "Type ex_root \<noteq> Version" by (simp add: ex_root_def)
  have c: "map Coords (fst (walk (ex_env declOrder) (ex_scope Version) ex_callback))
       = [[''obj-A'', ''v1''], [''obj-A'', ''v2'']]"
    by (simp add: walk_defs Coords_def ex_defs)
  show ?thesis
    using d n t c walk_Version_only [OF d n t, of ex_callback] by (simp add: list_all_iff)
qed


lemma filesLoop_silent:
  assumes "\<And>e. Type e = File \<Longrightarrow> \<not> contains (typeValue E) s e"
  shows "filesLoop E s object version f files tr = (tr, Ok)"
  by (induction files) (simp_all add: assms)

lemma versionsLoop_silent:
  assumes "\<And>e. Type e \<noteq> Root \<Longrightarrow> \<not> contains (typeValue E) s e"
  shows "versionsLoop E s inventory object f vIDs tr = (tr, Ok)"
  by (induction vIDs) (simp_all add: assms filesLoop_silent)

lemma walkObject_silent:
  assumes "\<And>e. Type e \<noteq> Root \<Longrightarrow> \<not> contains (typeValue E) s e"
    and "Type (startFrom s) = Root"
    and "readMetadata E path = Inr inventory"
  shows "walkObject E s path f tr = (tr, Ok)"
  using assms(2,3)
  by (simp add: walkObject_def walkVersions_def assms(1) versionsLoop_silent del: versionsLoop.simps)

lemma godirwalk_entries_silent:
  assumes "\<And>e tr. e \<in> set ds \<Longrightarrow> godirwalk_walk cb e tr = (tr, Ok)"
  shows "godirwalk_walk_entries cb ds tr = (tr, Ok)"
  using assms by (induction ds) simp_all

lemma godirwalk_silent:
  assumes nc: "\<And>e. Type e \<noteq> Root \<Longrightarrow> \<not> contains (typeValue E) s e"
    and rt: "Type (startFrom s) = Root"
  shows "layout_ok E d \<Longrightarrow> godirwalk_walk (visit E s f) d tr = (tr, Ok)"
proof (induction d arbitrary: tr)
  case (Dirent p d l re es)
  show ?case
  proof (cases "\<not> d \<and> \<not> l")
    case True
    then show ?thesis by (simp add: visit_def)
  next
    case False
    obtain b eo where ir: "isRoot E p Object = (b, eo)" by (cases "isRoot E p Object") auto
    have eo: "eo = None" using Dirent.prems False ir by (auto split: option.splits)
    show ?thesis
    proof (cases b)
      case True
      then obtain i where "readMetadata E p = Inr i"
        using Dirent.prems False ir eo by (auto split: sum.splits)
      then show ?thesis
        using False ir eo True walkObject_silent [OF nc rt, of p i f tr]
        by (simp add: visit_def)
    next
      case b: False
      have v: "visit E s f (Dirent p d l re es) tr = (goDeeper, tr, Ok)"
        using False ir eo b nc [of "EntityRef [] [] None Intermediate"]
        by (simp add: visit_def)
      have re: "re = None" and es: "\<forall>e \<in> set es. layout_ok E e"
        using Dirent.prems False ir eo b by auto
      have "godirwalk_walk_entries (visit E s f) es tr = (tr, Ok)"
        by (rule godirwalk_entries_silent) (use Dirent.IH es in auto)
      then show ?thesis using v re by simp
    qed
  qed
qed

lemma coordLoop_same: "coordLoop u u"
  by (induction u rule: chain.induct) simp_all

text \<open>
  Claim C5. With the type constants ordered as the walk relies on, a walk whose entry
  point and desired type are both \<open>Root\<close> gives the callback exactly one entity, the entry
  root itself, and gives it first, whatever happens afterwards; and when the callback
  accepts it and the walk starts from a directory of a layout on which no collaborator
  fails, the walk ends without an error.
\<close>

theorem root_walk_reports_root_once:
  assumes "depthOrder (typeValue E)"
    and "Type u = Root"
    and "newScope (findRoot E) u Root = Inr s"
  shows "fst (walk E s f) = [u]
     \<and> (f [] u = None
          \<and> (\<exists>d. Stat E (if Addr u = [] then Addr (root s) else Addr u) = Inr d
                \<and> IsDir d \<and> layout_ok E d)
        \<longrightarrow> walk E s f = ([u], Ok))"
proof -
  obtain rt where s: "s = \<lparr>root = rt, startFrom = u, desired = u\<rparr>"
    using assms(2,3) by (auto simp: newScope_def split: sum.splits)
  have nc: "\<not> contains (typeValue E) s e" if "Type e \<noteq> Root" for e
    using that assms(2) by (auto simp: contains_def s)
  have cu: "contains (typeValue E) s u"
    using assms(2) by (simp add: contains_def s coordLoop_same)
  have lt: "\<not> typeValue E (Type (startFrom s)) < typeValue E Object"
    using assms(1,2) by (simp add: s depthOrder_def)
  define sp where "sp = (if Addr u = [] then Addr (root s) else Addr u)"
  obtain t2 r2 where w: "fsWalk E sp (visit E s f) [u] = (t2, r2)"
    by (cases "fsWalk E sp (visit E s f) [u]") auto
  have "grows (\<lambda>e. False) [u] t2"
    by (rule fsWalk_visit_grows [OF _ _ _ _ w]) (use nc in auto)
  then obtain new where "t2 = [u] @ new" and "list_all (\<lambda>e. False) new"
    unfolding grows_def by blast
  then have t2: "t2 = [u]" by (cases new) simp_all
  have sf: "startFrom s = u" by (simp add: s)
  have a: "fst (walk E s f) = [u]"
    using lt cu assms(2) w t2
    by (auto simp: walk_def call_def sf sp_def [symmetric]
             split: option.splits result.splits)
  have b: "walk E s f = ([u], Ok)"
    if "f [] u = None" and "Stat E sp = Inr d" and "layout_ok E d" and "IsDir d" for d
  proof -
    have "godirwalk_walk (visit E s f) d [u] = ([u], Ok)"
      by (rule godirwalk_silent [OF nc _ that(3)]) (simp_all add: s assms(2))
    then have "fsWalk E sp (visit E s f) [u] = ([u], Ok)"
      using that(2,4) by (simp add: fsWalk_def godirwalk_Walk_def)
    then show ?thesis
      using lt cu assms(2) that(1)
      by (simp add: walk_def call_def sf sp_def [symmetric])
  qed
  show ?thesis using a b by (auto simp: sp_def)
qed

theorem root_walk_reports_root_once_witness:
  "depthOrder (typeValue (ex_env declOrder))
   \<and> Type ex_root = Root
   \<and> newScope (findRoot (ex_env declOrder)) ex_root Root = Inr (ex_scope Root)
   \<and> ex_callback [] ex_root = None
   \<and> Stat (ex_env declOrder) ''/data'' = Inr ex_tree
   \<and> IsDir ex_tree
   \<and> layout_ok (ex_env declOrder) ex_tree
   \<and> walk (ex_env declOrder) (ex_scope Root) ex_callback = ([ex_root], Ok)"
proof -
  have d: "depthOrder (typeValue (ex_env declOrder))"
    by (simp add: depthOrder_def ex_env_def)
  have t: "Type ex_root = Root" by (simp add: ex_root_def)
  have n: "newScope (findRoot (ex_env declOrder)) ex_root Root = Inr (ex_scope Root)"
    by (simp add: newScope_def ex_defs)
  have c: "ex_callback [] ex_root = None" by (simp add: ex_callback_def)
  have st: "Stat (ex_env declOrder) (if Addr ex_root = [] then Addr (root (ex_scope Root))
              else Addr ex_root) = Inr ex_tree"
    by (simp add: ex_defs)
  have st': "Stat (ex_env declOrder) ''/data'' = Inr ex_tree"
    by (simp add: ex_defs)
  have l: "layout_ok (ex_env declOrder) ex_tree"
    by (simp add: ex_defs)
  have i: "IsDir ex_tree"
    by (simp add: ex_defs)
  show ?thesis
    using d t n c st' l i root_walk_reports_root_once [OF d t n, of ex_callback] st by blast
qed











lemma versionsLoop_wrapped:
  "(case (case versionsLoop E s inventory ob f vs tr of
            (tr', Ok) \<Rightarrow> (tr', Ok)
          | (tr', Err err) \<Rightarrow> (tr', Err (Wrapped err m1))
          | (tr', Panic) \<Rightarrow> (tr', Panic)) of
      (tr2, Err err) \<Rightarrow> (tr2, Err (Wrapped err m2))
    | (tr2, r) \<Rightarrow> (tr2, r))
   = (case versionsLoop E s inventory ob f vs tr of
        (tr', Err err) \<Rightarrow> (tr', Err (Wrapped (Wrapped err m1) m2))
      | (tr', r) \<Rightarrow> (tr', r))"
  by (cases "versionsLoop E s inventory ob f vs tr") (auto split: result.splits)

text \<open>
  Claim C3, as amended. Let the type constants be ordered as the walk relies on, let the
  entry point of the walk be a version or a file and the desired type \<open>Version\<close> or
  \<open>File\<close>, let the walk start from the directory of the object (the address of the object
  reference that \<^verbatim>\<open>findRoot\<close> derives from the entry point is an object root whose
  manifest loads), and let \<open>scopeVersion\<close> be the version reference that \<^verbatim>\<open>findRoot\<close>
  derives from the entry point. If its identifier is not in the manifest, the walk fails
  with an error that names that identifier and the identifier of the object, and the
  callback has not been invoked; if it is, the walk is the iteration over that one
  identifier.
\<close>

theorem walk_missing_version:
  assumes ord: "depthOrder (typeValue E)"
    and u: "Type u = Version \<or> Type u = File"
    and t: "t = Version \<or> t = File"
    and s: "newScope (findRoot E) u t = Inr s"
    and fo: "findRoot E u Object = Inr node"
    and st: "Stat E (if Addr node = [] then Addr (root s) else Addr node) = Inr d"
    and dd: "IsDir d"
    and ir: "isRoot E (ospath d) Object = (True, None)"
    and rm: "readMetadata E (ospath d) = Inr inventory"
    and fv: "findRoot E u Version = Inr scopeVersion"
  shows "(ID scopeVersion \<notin> set (Versions inventory) \<longrightarrow>
            walk E s f
              = ([], Err (Wrapped (Wrapped
                   (Msg (''No version '' @ ID scopeVersion @ '' exists in '' @ inv_ID inventory))
                   ''terminating walk due to error'') ''error performing walk'')))
       \<and> (ID scopeVersion \<in> set (Versions inventory) \<longrightarrow>
            walk E s f
              = (case versionsLoop E s inventory
                        (EntityRef (inv_ID inventory) (ospath d) (Some (root s)) Object) f
                        [ID scopeVersion] [] of
                   (tr, Err err) \<Rightarrow>
                     (tr, Err (Wrapped (Wrapped err ''terminating walk due to error'')
                               ''error performing walk''))
                 | (tr, r) \<Rightarrow> (tr, r)))"
proof -
  let ?ob = "EntityRef (inv_ID inventory) (ospath d) (Some (root s)) Object"
  have sf: "startFrom s = u" and ds: "Type (desired s) = t"
    using s by (auto simp: newScope_def split: sum.splits)
  have lt: "typeValue E (Type u) < typeValue E Object"
    using ord u by (auto simp: depthOrder_def)
  have gate: "typeValue E t \<le> typeValue E Version"
    using ord t by (auto simp: depthOrder_def)
  have tA: "t \<noteq> Any" "t \<noteq> Root" "t \<noteq> Object" using t by auto
  have cn: "(Type node = Root \<and> contains (typeValue E) s node) = False"
    using u tA by (auto simp: contains_def sf ds)
  have co: "\<not> contains (typeValue E) s ?ob"
    using u tA by (auto simp: contains_def sf ds)
  have nar: "Type (startFrom s) = Version \<or> Type (startFrom s) = File"
    using u by (simp add: sf)
  have fv': "findRoot E (startFrom s) Version = Inr scopeVersion"
    using fv by (simp add: sf)
  have wo: "walkObject E s (ospath d) f [] = walkVersions E s inventory ?ob f []"
    using rm co gate by (simp add: walkObject_def ds)
  have vis: "visit E s f d [] = (dontGoDeeper, walkVersions E s inventory ?ob f [])"
    using dd ir wo by (simp add: visit_def)
  have gw: "godirwalk_walk (visit E s f) d []
              = (case walkVersions E s inventory ?ob f [] of
                   (tr', Ok) \<Rightarrow> (tr', Ok)
                 | (tr', Err err) \<Rightarrow> (tr', Err (Wrapped err ''terminating walk due to error''))
                 | (tr', Panic) \<Rightarrow> (tr', Panic))"
    using vis by (cases d) (simp split: prod.splits result.splits)
  have w: "walk E s f
             = (case (case walkVersions E s inventory ?ob f [] of
                        (tr', Ok) \<Rightarrow> (tr', Ok)
                      | (tr', Err err) \<Rightarrow> (tr', Err (Wrapped err ''terminating walk due to error''))
                      | (tr', Panic) \<Rightarrow> (tr', Panic)) of
                  (tr2, Err err) \<Rightarrow> (tr2, Err (Wrapped err ''error performing walk''))
                | (tr2, r) \<Rightarrow> (tr2, r))"
    using lt fo st dd gw
    by (simp add: walk_def sf fsWalk_def godirwalk_Walk_def cn)
  have a: "walk E s f
              = ([], Err (Wrapped (Wrapped
                   (Msg (''No version '' @ ID scopeVersion @ '' exists in '' @ inv_ID inventory))
                   ''terminating walk due to error'') ''error performing walk''))"
    if "ID scopeVersion \<notin> set (Versions inventory)"
    using that walkVersions_narrowing [OF nar fv', of inventory ?ob f "[]"]
    by (simp add: w)
  have b: "walk E s f
              = (case versionsLoop E s inventory ?ob f [ID scopeVersion] [] of
                   (tr, Err err) \<Rightarrow>
                     (tr, Err (Wrapped (Wrapped err ''terminating walk due to error'')
                               ''error performing walk''))
                 | (tr, r) \<Rightarrow> (tr, r))"
    if "ID scopeVersion \<in> set (Versions inventory)"
    using that walkVersions_narrowing [OF nar fv', of inventory ?ob f "[]"]
    by (simp add: w versionsLoop_wrapped del: versionsLoop.simps)
  show ?thesis using a b by blast
qed

theorem walk_missing_version_witness:
  "depthOrder (typeValue (ex_env declOrder))
   \<and> newScope (findRoot (ex_env declOrder)) ex_version9 Version = Inr (ex_single ex_version9)
   \<and> findRoot (ex_env declOrder) ex_version9 Object = Inr ex_object
   \<and> Stat (ex_env declOrder) ''/data/a'' = Inr ex_object_dir
   \<and> readMetadata (ex_env declOrder) ''/data/a'' = Inr ex_inventory
   \<and> findRoot (ex_env declOrder) ex_version9 Version = Inr ex_version9
   \<and> ID ex_version9 \<notin> set (Versions ex_inventory)
   \<and> walk (ex_env declOrder) (ex_single ex_version9) ex_callback
       = ([], Err (Wrapped (Wrapped (Msg ''No version v9 exists in obj-A'')
                     ''terminating walk due to error'') ''error performing walk''))
   \<and> newScope (findRoot (ex_env declOrder)) ex_version File
       = Inr \<lparr>root = ex_root, startFrom = ex_version, desired = EntityRef [] [] None File\<rparr>
   \<and> findRoot (ex_env declOrder) ex_version Version = Inr ex_version
   \<and> walk (ex_env declOrder)
        \<lparr>root = ex_root, startFrom = ex_version, desired = EntityRef [] [] None File\<rparr>
        ex_callback
       = ([ex_file], Ok)"
proof -
  let ?E = "ex_env declOrder"
  let ?s1 = "\<lparr>root = ex_root, startFrom = ex_version, desired = EntityRef [] [] None File\<rparr>"
  have d: "depthOrder (typeValue ?E)"
    by (simp add: depthOrder_def ex_env_def)
  have u9: "Type ex_version9 = Version \<or> Type ex_version9 = File"
    by (simp add: ex_version9_def)
  have u1: "Type ex_version = Version \<or> Type ex_version = File"
    by (simp add: ex_version_def)
  have n9: "newScope (findRoot ?E) ex_version9 Version = Inr (ex_single ex_version9)"
    by (simp add: newScope_def ex_single_def ex_version9_def ex_defs)
  have n1: "newScope (findRoot ?E) ex_version File = Inr ?s1"
    by (simp add: newScope_def ex_defs)
  have o9: "findRoot ?E ex_version9 Object = Inr ex_object"
    by (simp add: ex_version9_def ex_defs)
  have o1: "findRoot ?E ex_version Object = Inr ex_object"
    by (simp add: ex_defs)
  have st: "Stat ?E ''/data/a'' = Inr ex_object_dir"
    by (simp add: ex_defs)
  have st9: "Stat ?E (if Addr ex_object = [] then Addr (root (ex_single ex_version9))
                      else Addr ex_object) = Inr ex_object_dir"
    by (simp add: ex_defs)
  have st1: "Stat ?E (if Addr ex_object = [] then Addr (root ?s1) else Addr ex_object)
               = Inr ex_object_dir"
    by (simp add: ex_defs)
  have dd: "IsDir ex_object_dir" by (simp add: ex_object_dir_def)
  have ir: "isRoot ?E (ospath ex_object_dir) Object = (True, None)"
    by (simp add: ex_defs)
  have rm: "readMetadata ?E (ospath ex_object_dir) = Inr ex_inventory"
    by (simp add: ex_defs)
  have rm': "readMetadata ?E ''/data/a'' = Inr ex_inventory"
    by (simp add: ex_defs)
  have v9: "findRoot ?E ex_version9 Version = Inr ex_version9"
    by (simp add: ex_version9_def ex_defs)
  have v1: "findRoot ?E ex_version Version = Inr ex_version"
    by (simp add: ex_defs)
  have a9: "ID ex_version9 \<notin> set (Versions ex_inventory)"
    by (simp add: ex_version9_def ex_defs)
  have p1: "ID ex_version \<in> set (Versions ex_inventory)"
    by (simp add: ex_defs)
  have w9: "walk ?E (ex_single ex_version9) ex_callback
       = ([], Err (Wrapped (Wrapped (Msg ''No version v9 exists in obj-A'')
                     ''terminating walk due to error'') ''error performing walk''))"
    using walk_missing_version [OF d u9 _ n9 o9 st9 dd ir rm v9, of ex_callback] a9
    by (simp add: ex_version9_def ex_inventory_def)
  have "versionsLoop ?E ?s1 ex_inventory
          (EntityRef (inv_ID ex_inventory) (ospath ex_object_dir) (Some (root ?s1)) Object)
          ex_callback [ID ex_version] [] = ([ex_file], Ok)"
    by (simp add: contains_def call_def Let_def ex_defs)
  then have w1: "walk ?E ?s1 ex_callback = ([ex_file], Ok)"
    using walk_missing_version [OF d u1 _ n1 o1 st1 dd ir rm v1, of ex_callback] p1
    by (simp del: versionsLoop.simps)
  show ?thesis using d n9 o9 st rm' v9 a9 w9 n1 v1 w1 by simp
qed

text \<open>
  The claim C3 as stated, for every walk that enters at a version or a file, fails in two
  ways. A walk for objects that enters at the version \<open>v9\<close>, which the manifest of
  \<open>obj-A\<close> does not have, never comes to the versions: it gives the object to the callback
  and ends without an error. And a walk for files that enters at a reference holding only
  the coordinates of version \<open>v3\<close> of \<open>obj-B\<close> starts from the storage root: the manifest
  of \<open>obj-B\<close> has \<open>v3\<close> and its file is given to the callback, and then the walk fails
  at \<open>obj-A\<close>, whose manifest has no \<open>v3\<close>.
\<close>

theorem walk_missing_version_counterexample:
  "newScope (findRoot (ex_env declOrder)) ex_version9 Object
     = Inr \<lparr>root = ex_root, startFrom = ex_version9, desired = EntityRef [] [] None Object\<rparr>
   \<and> findRoot (ex_env declOrder) ex_version9 Version = Inr ex_version9
   \<and> ID ex_version9 \<notin> set (Versions ex_inventory)
   \<and> walk (ex_env declOrder)
        \<lparr>root = ex_root, startFrom = ex_version9, desired = EntityRef [] [] None Object\<rparr>
        ex_callback
       = ([ex_object], Ok)
   \<and> newScope (findRoot ex_env2) ex_version3_coords File
     = Inr \<lparr>root = ex_root, startFrom = ex_version3_coords, desired = EntityRef [] [] None File\<rparr>
   \<and> findRoot ex_env2 ex_version3_coords Version = Inr ex_version3_coords
   \<and> ID ex_version3_coords \<in> set (Versions ex_inventory_B)
   \<and> walk ex_env2
        \<lparr>root = ex_root, startFrom = ex_version3_coords, desired = EntityRef [] [] None File\<rparr>
        ex_callback
       = ([EntityRef ''c.txt'' ''/data/b/v1/content/c.txt''
             (Some (EntityRef ''v3'' ''/data/b/v3''
                (Some (EntityRef ''obj-B'' ''/data/b'' (Some ex_root) Object)) Version)) File],
          Err (Wrapped (Wrapped (Msg ''No version v3 exists in obj-A'')
                 ''terminating walk due to error'') ''error performing walk''))"
  by (simp add: newScope_def walk_defs ex_version9_def ex_defs ex_env2_def ex_inventory_B_def
        ex_object_dir_B_def ex_tree2_def ex_version3_coords_def)

text \<open>
  The code has no guard of its own around the reference that \<^verbatim>\<open>findRoot\<close> returns in
  \<^verbatim>\<open>walkVersions\<close>: whenever that call fails for an entry point that is a version or a
  file, the nil reference is dereferenced.
\<close>

lemma walkVersions_findRoot_failure:
  assumes "Type (startFrom s) = Version \<or> Type (startFrom s) = File"
    and "findRoot E (startFrom s) Version = Inl err"
  shows "walkVersions E s inventory object f tr = (tr, Panic)"
  using assms by (auto simp: walkVersions_def)

end
